theory Spec2Isabelle
  imports Main "HOL-Library.AList" "HOL-Library.Multiset"
begin

section \<open>Data model (main.go, lines 19-76)\<close>

text \<open>
  The Go structs become records. Field names are kept; where two structs share a field
  name the name is prefixed with the struct's name. Go's \<open>int\<close> is only ever used as an
  identifier here (compared and copied, never computed with), so it is modelled as \<open>int\<close>.
  A Go \<open>string\<close> is a \<open>string\<close>; the zero value \<open>""\<close> is \<open>[]\<close>.
\<close>

record Step =
  Step_Start :: string
  Step_End :: string
  VititMotiveID :: int
  Step_AgendaID :: int

record Slot =
  Start :: string
  End :: string
  Steps :: "Step list"
  AgendaID :: int

record Availability =
  Date :: string
  Slots :: "Slot list"

record AvailbilitiesResponse =
  Total :: int
  Reason :: string
  Message :: string
  NumberOfFutureVacinations :: int
  NextSlot :: string
  Availabilities :: "Availability list"

record Place =
  Place_Name :: string
  PractiseIDs :: "int list"

record Agenda =
  Agenda_ID :: int
  VisitMotives :: "int list"
  PracticeID :: int
  BookingDisabled :: bool
  BookingTemporayDisabled :: bool

record VisitMotive =
  VisitMotive_ID :: int
  VisitMotive_Name :: string

record CIZRespone =
  Data_Places :: "Place list"
  Data_Agendas :: "Agenda list"
  Data_VisitMotives :: "VisitMotive list"

text \<open>
  A Go \<open>map[K]V\<close> is an association list with pairwise distinct keys: \<open>m[k] = v\<close> is
  \<open>AList.update k v m\<close> (replace the entry of \<open>k\<close>, or add one), a lookup is \<open>map_of m k\<close>,
  and \<open>range m\<close> visits the entries of the list. Go visits them in an unspecified order;
  every property below is stated on lookups, on sets or on multisets, none on positions.
\<close>

type_synonym ('k, 'v) gomap = "('k \<times> 'v) list"

record Impfzentrum =
  ID :: int
  Name :: string
  DisabledVaccination :: "(int, string) gomap"
  Vaccination :: "(int, string) gomap"
  AgendaIDs :: "int list"

section \<open>The outside world\<close>

text \<open>
  What an HTTP GET followed by \<open>io.ReadAll\<close> and \<open>json.Unmarshal\<close> can yield: no response
  at all, or a response with a status code whose body cannot be read, does not decode, or
  decodes to a value.
\<close>

datatype 'a payload = Unreadable | Malformed | Json 'a

datatype 'a reply = NetworkFailure | Reply int "'a payload"

text \<open>The errors built with \<open>fmt.Errorf\<close> in \<open>GetAvailabilities\<close> and \<open>Impfzentren\<close>.\<close>

datatype error = RequestFailed | FailedWith int | ReadingBodyFailed | FailedToParse

text \<open>A Go call either returns or panics.\<close>

datatype 'a go = Panics | Returns 'a

text \<open>
  The world of one scrape cycle: the answer to the catalog request, the answer to each
  availability request (practice id, visit motive id, agenda ids), and the two library
  computations on times, which are parameters: \<open>time.Parse("2006-01-02", s)\<close> and
  \<open>time.Until(t).Hours()/24\<close>.
\<close>

record ('t, 'v) world =
  catalog :: "CIZRespone reply"
  availabilities :: "int \<Rightarrow> int \<Rightarrow> int list \<Rightarrow> AvailbilitiesResponse reply"
  parse_date :: "string \<Rightarrow> 't option"
  days_until :: "'t \<Rightarrow> 'v"

text \<open>
  The checks that \<open>Impfzentren\<close> (lines 204-218) and \<open>GetAvailabilities\<close> (lines 182-196)
  both make on a response, in the source's order.
\<close>

fun decode :: "'a reply \<Rightarrow> error + 'a" where
  "decode NetworkFailure = Inl RequestFailed"
| "decode (Reply status body) =
     (if status > 399 then Inl (FailedWith status)
      else case body of
             Unreadable \<Rightarrow> Inl ReadingBodyFailed
           | Malformed \<Rightarrow> Inl FailedToParse
           | Json x \<Rightarrow> Inr x)"

section \<open>Impfzentren (main.go, lines 202-250)\<close>

text \<open>Lines 220-223: the name of every visit motive, by id.\<close>

definition motiveByID :: "VisitMotive list \<Rightarrow> (int, string) gomap" where
  "motiveByID ms = fold (\<lambda>m acc. AList.update (VisitMotive_ID m) (VisitMotive_Name m) acc) ms []"

text \<open>A lookup of a missing key in a \<open>map[int]string\<close> gives the zero value \<open>""\<close>.\<close>

definition motive_name :: "(int, string) gomap \<Rightarrow> int \<Rightarrow> string" where
  "motive_name mb m = (case map_of mb m of None \<Rightarrow> [] | Some n \<Rightarrow> n)"

text \<open>Lines 224-230: one center per place, keyed by the place's first practice id.\<close>

definition new_center :: "Place \<Rightarrow> int \<Rightarrow> Impfzentrum" where
  "new_center p i =
     \<lparr>ID = i, Name = Place_Name p, DisabledVaccination = [], Vaccination = [], AgendaIDs = []\<rparr>"

definition add_place :: "Place \<Rightarrow> (int, Impfzentrum) gomap \<Rightarrow> (int, Impfzentrum) gomap" where
  "add_place p acc =
     (case PractiseIDs p of
        [] \<Rightarrow> acc
      | i # _ \<Rightarrow> AList.update i (new_center p i) acc)"

definition practiceByID :: "Place list \<Rightarrow> (int, Impfzentrum) gomap" where
  "practiceByID ps = fold add_place ps []"

text \<open>Lines 233-240: the classification of one visit motive of one agenda.\<close>

definition disabling :: "Agenda \<Rightarrow> bool" where
  "disabling a = (BookingDisabled a \<or> BookingTemporayDisabled a)"

definition write_motive :: "(int, string) gomap \<Rightarrow> Agenda \<Rightarrow> int \<Rightarrow> Impfzentrum \<Rightarrow> Impfzentrum" where
  "write_motive mb a m c =
     (if disabling a
      then c\<lparr>DisabledVaccination := AList.update m (motive_name mb m) (DisabledVaccination c)\<rparr>
      else c\<lparr>Vaccination := AList.update m (motive_name mb m) (Vaccination c)\<rparr>)"

text \<open>Lines 232-240: what one agenda does to the center it belongs to.\<close>

definition add_agenda :: "(int, string) gomap \<Rightarrow> Agenda \<Rightarrow> Impfzentrum \<Rightarrow> Impfzentrum" where
  "add_agenda mb a c =
     fold (write_motive mb a) (VisitMotives a) (c\<lparr>AgendaIDs := AgendaIDs c @ [Agenda_ID a]\<rparr>)"

text \<open>
  Lines 231-241: the loop over the agendas. \<open>practiceByID[a.PracticeID]\<close> is a pointer, nil
  for a missing key, and line 232 reads its field \<open>AgendaIDs\<close> without a check: on an
  agenda whose practice id is not a key the call panics.
\<close>

fun agendas_loop ::
  "(int, string) gomap \<Rightarrow> Agenda list \<Rightarrow> (int, Impfzentrum) gomap \<Rightarrow> (int, Impfzentrum) gomap go"
where
  "agendas_loop mb [] pb = Returns pb"
| "agendas_loop mb (a # as) pb =
     (case map_of pb (PracticeID a) of
        None \<Rightarrow> Panics
      | Some c \<Rightarrow> agendas_loop mb as (AList.update (PracticeID a) (add_agenda mb a c) pb))"

text \<open>The classifier: lines 220-248 on a decoded catalog.\<close>

definition classify :: "CIZRespone \<Rightarrow> Impfzentrum list go" where
  "classify ciz =
     (case agendas_loop (motiveByID (Data_VisitMotives ciz)) (Data_Agendas ciz)
             (practiceByID (Data_Places ciz)) of
        Panics \<Rightarrow> Panics
      | Returns pb \<Rightarrow> Returns (map snd pb))"

definition Impfzentren :: "CIZRespone reply \<Rightarrow> (error + Impfzentrum list) go" where
  "Impfzentren r =
     (case decode r of
        Inl err \<Rightarrow> Returns (Inl err)
      | Inr ciz \<Rightarrow> (case classify ciz of Panics \<Rightarrow> Panics | Returns cs \<Rightarrow> Returns (Inr cs)))"

section \<open>Collect and CollectAvailability (main.go, lines 98-200)\<close>

text \<open>
  What a cycle does that can be seen from outside: the lines it logs, the availability
  requests it sends, and the samples it puts on the channel. The \<open>impfzentrum\<close> gauge always
  has the value 1 and the labels name, type and disabled; the
  \<open>impfzentrum_next_slot_duration_days\<close> gauge has the labels name and type.
\<close>

datatype logline =
    ErrorFetchingImpfzentren error
  | Calling int int "int list"
  | FailedToGetAvailabilities string error
  | Response AvailbilitiesResponse
  | FailedToParseNextSlot string

datatype 'v event =
    Log logline
  | Get int int "int list"
  | impfzentrum string string string
  | next_slot string string 'v

text \<open>
  Lines 160-200. The query carries the practice id, the visit motive id and the agenda ids
  (and today's date and four constants); parsing the constant URL cannot fail.
\<close>

definition GetAvailabilities ::
  "('t, 'v) world \<Rightarrow> int \<Rightarrow> int \<Rightarrow> int list \<Rightarrow> 'v event list \<times> (error + AvailbilitiesResponse)"
where
  "GetAvailabilities w practice motive aganda_ids =
     ([Log (Calling practice motive aganda_ids), Get practice motive aganda_ids],
      decode (availabilities w practice motive aganda_ids))"

text \<open>Lines 138-145: the date of the first window that has a slot, \<open>""\<close> if there is none.\<close>

fun first_window :: "Availability list \<Rightarrow> string" where
  "first_window [] = []"
| "first_window (a # as) = (if length (Slots a) > 0 then Date a else first_window as)"

text \<open>Lines 138-148.\<close>

definition nextDate :: "AvailbilitiesResponse \<Rightarrow> string" where
  "nextDate r = (let d = first_window (Availabilities r) in if d = [] then NextSlot r else d)"

text \<open>Lines 130-158.\<close>

definition CollectAvailability ::
  "('t, 'v) world \<Rightarrow> Impfzentrum \<Rightarrow> int \<Rightarrow> string \<Rightarrow> 'v event list"
where
  "CollectAvailability w center motiveID motiveName =
     (case GetAvailabilities w (ID center) motiveID (AgendaIDs center) of
        (evs, Inl err) \<Rightarrow> evs @ [Log (FailedToGetAvailabilities (Name center) err)]
      | (evs, Inr r) \<Rightarrow>
          evs @ [Log (Response r)] @
          (if nextDate r \<noteq> []
           then (case parse_date w (nextDate r) of
                   None \<Rightarrow> [Log (FailedToParseNextSlot (nextDate r))]
                 | Some t \<Rightarrow> [next_slot (Name center) motiveName (days_until w t)])
           else []))"

text \<open>
  Lines 107-117 for one center. Every event is paired with the (center id, visit motive id)
  of the loop iteration or task it comes from; the pair is bookkeeping and not part of the
  sample. The tasks run concurrently with the loop, so the list is one of the possible
  interleavings.
\<close>

definition enabled_events ::
  "('t, 'v) world \<Rightarrow> Impfzentrum \<Rightarrow> int \<times> string \<Rightarrow> ((int \<times> int) option \<times> 'v event) list"
where
  "enabled_events w center kv =
     map (Pair (Some (ID center, fst kv)))
       (impfzentrum (Name center) (snd kv) ''false'' #
        CollectAvailability w center (fst kv) (snd kv))"

definition disabled_events ::
  "Impfzentrum \<Rightarrow> int \<times> string \<Rightarrow> ((int \<times> int) option \<times> 'v event) list"
where
  "disabled_events center kv =
     [(Some (ID center, fst kv), impfzentrum (Name center) (snd kv) ''true'')]"

definition center_events ::
  "('t, 'v) world \<Rightarrow> Impfzentrum \<Rightarrow> ((int \<times> int) option \<times> 'v event) list"
where
  "center_events w center =
     concat (map (enabled_events w center) (Vaccination center)) @
     concat (map (disabled_events center) (DisabledVaccination center))"

text \<open>Lines 98-121. A panic in \<open>Impfzentren\<close> is not recovered.\<close>

definition Collect :: "('t, 'v) world \<Rightarrow> ((int \<times> int) option \<times> 'v event) list go" where
  "Collect w =
     (case Impfzentren (catalog w) of
        Panics \<Rightarrow> Panics
      | Returns (Inl err) \<Rightarrow> Returns [(None, Log (ErrorFetchingImpfzentren err))]
      | Returns (Inr centers) \<Rightarrow> Returns (concat (map (center_events w) centers)))"

text \<open>The samples, the requests and the events of one pair, in what a cycle did.\<close>

fun is_sample :: "'v event \<Rightarrow> bool" where
  "is_sample (impfzentrum n t d) = True"
| "is_sample (next_slot n t v) = True"
| "is_sample e = False"

fun is_next_slot :: "'v event \<Rightarrow> bool" where
  "is_next_slot (next_slot n t v) = True"
| "is_next_slot e = False"

fun is_Get :: "'v event \<Rightarrow> bool" where
  "is_Get (Get p m as) = True"
| "is_Get e = False"

definition samples :: "('o \<times> 'v event) list \<Rightarrow> 'v event list" where
  "samples out = filter is_sample (map snd out)"

definition events_of :: "int \<times> int \<Rightarrow> ((int \<times> int) option \<times> 'v event) list \<Rightarrow> 'v event list" where
  "events_of pr out = map snd (filter (\<lambda>x. fst x = Some pr) out)"

text \<open>
  What one pair is expected to contribute to a cycle: for an entry of the enabled mapping
  the presence sample and the events of its task, for an entry of the disabled mapping the
  presence sample alone.
\<close>

definition pair_events :: "('t, 'v) world \<Rightarrow> Impfzentrum \<Rightarrow> int \<Rightarrow> 'v event list" where
  "pair_events w c m =
     (case map_of (Vaccination c) m of
        None \<Rightarrow> []
      | Some n \<Rightarrow> impfzentrum (Name c) n ''false'' # CollectAvailability w c m n) @
     (case map_of (DisabledVaccination c) m of
        None \<Rightarrow> []
      | Some v \<Rightarrow> [impfzentrum (Name c) v ''true''])"

section \<open>Vocabulary of the specification\<close>

text \<open>
  The first practice identifier and the name of a place; a place without practice
  identifiers has none.
\<close>

definition place_key :: "Place \<Rightarrow> (int \<times> string) list" where
  "place_key p = (case PractiseIDs p of [] \<Rightarrow> [] | i # _ \<Rightarrow> [(i, Place_Name p)])"

definition keyed_places :: "Place list \<Rightarrow> (int \<times> string) list" where
  "keyed_places ps = concat (map place_key ps)"

text \<open>Every agenda's practice id is the first practice id of some place.\<close>

definition no_orphans :: "CIZRespone \<Rightarrow> bool" where
  "no_orphans ciz =
     (\<forall>a\<in>set (Data_Agendas ciz). PracticeID a \<in> fst ` set (keyed_places (Data_Places ciz)))"

text \<open>The agendas of a practice, in catalog order.\<close>

definition agendas_of :: "CIZRespone \<Rightarrow> int \<Rightarrow> Agenda list" where
  "agendas_of ciz k = filter (\<lambda>a. PracticeID a = k) (Data_Agendas ciz)"

text \<open>
  The vaccination types referenced by the agendas of a practice that have a disable flag
  set (\<open>d = True\<close>), or by those that have none (\<open>d = False\<close>).
\<close>

definition types_of :: "CIZRespone \<Rightarrow> int \<Rightarrow> bool \<Rightarrow> int set" where
  "types_of ciz k d =
     set (concat (map VisitMotives (filter (\<lambda>a. disabling a = d) (agendas_of ciz k))))"

text \<open>A center as the places loop creates it, and as the agendas of its practice leave it.\<close>

definition fresh :: "int \<Rightarrow> string \<Rightarrow> Impfzentrum" where
  "fresh k n = \<lparr>ID = k, Name = n, DisabledVaccination = [], Vaccination = [], AgendaIDs = []\<rparr>"

definition final_center :: "CIZRespone \<Rightarrow> int \<Rightarrow> string \<Rightarrow> Impfzentrum" where
  "final_center ciz k n =
     fold (add_agenda (motiveByID (Data_VisitMotives ciz))) (agendas_of ciz k) (fresh k n)"

text \<open>
  A fetch that fails: no response, a status of 400 or more, or a body that cannot be read
  or decoded.
\<close>

fun fetch_fails :: "'a reply \<Rightarrow> bool" where
  "fetch_fails NetworkFailure = True"
| "fetch_fails (Reply status body) =
     (status \<ge> 400 \<or> (case body of Json x \<Rightarrow> False | _ \<Rightarrow> True))"

text \<open>
  A pair that fails: its fetch fails, or the date resolved from the response does not
  parse.
\<close>

definition pair_fails :: "('t, 'v) world \<Rightarrow> Impfzentrum \<Rightarrow> int \<Rightarrow> bool" where
  "pair_fails w c m =
     (case availabilities w (ID c) m (AgendaIDs c) of
        NetworkFailure \<Rightarrow> True
      | Reply status body \<Rightarrow>
          status \<ge> 400 \<or>
          (case body of
             Json r \<Rightarrow> nextDate r \<noteq> [] \<and> parse_date w (nextDate r) = None
           | _ \<Rightarrow> True))"

text \<open>
  The resolution of the next date in the words of the specification: the date of the first
  window with a non-empty slot list, and the top-level hint only if no window has one.
\<close>

definition spec_next_date :: "AvailbilitiesResponse \<Rightarrow> string" where
  "spec_next_date r =
     (case find (\<lambda>a. Slots a \<noteq> []) (Availabilities r) of
        Some a \<Rightarrow> Date a
      | None \<Rightarrow> NextSlot r)"

section \<open>Example inputs\<close>

definition agenda :: "int \<Rightarrow> int \<Rightarrow> int list \<Rightarrow> bool \<Rightarrow> Agenda" where
  "agenda i practice motives disabled =
     \<lparr>Agenda_ID = i, VisitMotives = motives, PracticeID = practice,
      BookingDisabled = disabled, BookingTemporayDisabled = False\<rparr>"

definition biontech :: VisitMotive where
  "biontech = \<lparr>VisitMotive_ID = 7, VisitMotive_Name = ''BioNTech''\<rparr>"

definition moderna :: VisitMotive where
  "moderna = \<lparr>VisitMotive_ID = 8, VisitMotive_Name = ''Moderna''\<rparr>"

definition messe :: Place where
  "messe = \<lparr>Place_Name = ''Messe'', PractiseIDs = [1, 2]\<rparr>"

definition tegel :: Place where
  "tegel = \<lparr>Place_Name = ''Tegel'', PractiseIDs = [3]\<rparr>"

text \<open>An agenda of practice 5, which no place lists first, before an agenda of practice 1.\<close>

definition ciz_orphan :: CIZRespone where
  "ciz_orphan =
     \<lparr>Data_Places = [messe],
      Data_Agendas = [agenda 10 5 [7] False, agenda 11 1 [7] False],
      Data_VisitMotives = [biontech]\<rparr>"

text \<open>Type 7 of practice 1 in a bookable agenda and, later, in a disabled one.\<close>

definition ciz_twice :: CIZRespone where
  "ciz_twice =
     \<lparr>Data_Places = [messe],
      Data_Agendas = [agenda 10 1 [7] False, agenda 11 1 [7] True],
      Data_VisitMotives = [biontech]\<rparr>"

text \<open>Type 7 of practice 1 in a disabled agenda and, later, in a bookable one.\<close>

definition ciz_earlier :: CIZRespone where
  "ciz_earlier =
     \<lparr>Data_Places = [messe],
      Data_Agendas = [agenda 10 1 [7] True, agenda 11 1 [7] False],
      Data_VisitMotives = [biontech]\<rparr>"

text \<open>Two places whose first practice id is 1.\<close>

definition ciz_shared :: CIZRespone where
  "ciz_shared =
     \<lparr>Data_Places = [messe, \<lparr>Place_Name = ''Arena'', PractiseIDs = [1]\<rparr>],
      Data_Agendas = [],
      Data_VisitMotives = [biontech]\<rparr>"

text \<open>
  Two centers and a place without practice ids; type 9 has no visit motive; type 7 is
  bookable at practice 1 and disabled at practice 3.
\<close>

definition ciz_two :: CIZRespone where
  "ciz_two =
     \<lparr>Data_Places = [messe, \<lparr>Place_Name = ''Mobil'', PractiseIDs = []\<rparr>, tegel],
      Data_Agendas = [agenda 10 1 [7, 8] False, agenda 11 3 [7] True, agenda 12 3 [9] False],
      Data_VisitMotives = [biontech, moderna]\<rparr>"

definition center_messe :: Impfzentrum where
  "center_messe =
     \<lparr>ID = 1, Name = ''Messe'', DisabledVaccination = [],
      Vaccination = [(7, ''BioNTech''), (8, ''Moderna'')], AgendaIDs = [10]\<rparr>"

definition center_tegel :: Impfzentrum where
  "center_tegel =
     \<lparr>ID = 3, Name = ''Tegel'', DisabledVaccination = [(7, ''BioNTech'')],
      Vaccination = [(9, [])], AgendaIDs = [11, 12]\<rparr>"

definition center_twice :: Impfzentrum where
  "center_twice =
     \<lparr>ID = 1, Name = ''Messe'', DisabledVaccination = [(7, ''BioNTech'')],
      Vaccination = [(7, ''BioNTech'')], AgendaIDs = [10, 11]\<rparr>"

text \<open>Availability responses.\<close>

definition response :: "string \<Rightarrow> Availability list \<Rightarrow> AvailbilitiesResponse" where
  "response hint windows =
     \<lparr>Total = 0, Reason = [], Message = [], NumberOfFutureVacinations = 0,
      NextSlot = hint, Availabilities = windows\<rparr>"

definition slot :: Slot where
  "slot = \<lparr>Start = ''2024-01-12T09:00'', End = ''2024-01-12T09:05'', Steps = [], AgendaID = 10\<rparr>"

text \<open>The example of the specification: an empty window, then a window with a slot.\<close>

definition response_windows :: AvailbilitiesResponse where
  "response_windows =
     response [] [\<lparr>Date = ''2024-01-10'', Slots = []\<rparr>, \<lparr>Date = ''2024-01-12'', Slots = [slot]\<rparr>]"

text \<open>A window that has a slot and no date, and a top-level hint.\<close>

definition response_undated :: AvailbilitiesResponse where
  "response_undated = response ''2024-02-01'' [\<lparr>Date = [], Slots = [slot]\<rparr>]"

text \<open>
  Worlds. Times are the date strings of ten characters and the day count is their day of
  the month, which is all the examples need.
\<close>

definition parse10 :: "string \<Rightarrow> string option" where
  "parse10 s = (if length s = 10 then Some s else None)"

definition day_of :: "string \<Rightarrow> int" where
  "day_of t = (if t = ''2024-01-12'' then 12 else 1)"

definition world_of ::
  "CIZRespone reply \<Rightarrow> (int \<Rightarrow> int \<Rightarrow> int list \<Rightarrow> AvailbilitiesResponse reply) \<Rightarrow> (string, int) world"
where
  "world_of cat av = \<lparr>catalog = cat, availabilities = av, parse_date = parse10, days_until = day_of\<rparr>"

definition all_windows :: "int \<Rightarrow> int \<Rightarrow> int list \<Rightarrow> AvailbilitiesResponse reply" where
  "all_windows p m as = Reply 200 (Json response_windows)"

text \<open>Every request is answered with a response that has no window and no hint.\<close>

definition no_windows :: "int \<Rightarrow> int \<Rightarrow> int list \<Rightarrow> AvailbilitiesResponse reply" where
  "no_windows p m as = Reply 200 (Json (response [] []))"

text \<open>The request of practice 1 for type 7 is answered with status 502, every other one as above.\<close>

definition one_down :: "int \<Rightarrow> int \<Rightarrow> int list \<Rightarrow> AvailbilitiesResponse reply" where
  "one_down p m as = (if p = 1 \<and> m = 7 then Reply 502 Unreadable else all_windows p m as)"

section \<open>Association lists as maps\<close>

lemma update_fresh: "k \<notin> fst ` set al \<Longrightarrow> AList.update k v al = al @ [(k, v)]"
  by (induction al) auto

lemma update_present_keys: "k \<in> fst ` set al \<Longrightarrow> map fst (AList.update k v al) = map fst al"
  by (simp add: update_keys)

section \<open>The classifier\<close>

subsection \<open>One center under the agendas of its practice\<close>

lemma fold_write_ID [simp]: "ID (fold (write_motive mb a) ms c) = ID c"
  by (induction ms arbitrary: c) (auto simp: write_motive_def)
lemma fold_write_Name [simp]: "Name (fold (write_motive mb a) ms c) = Name c"
  by (induction ms arbitrary: c) (auto simp: write_motive_def)
lemma fold_write_AgendaIDs [simp]: "AgendaIDs (fold (write_motive mb a) ms c) = AgendaIDs c"
  by (induction ms arbitrary: c) (auto simp: write_motive_def)

lemma fold_write_Vaccination:
  "map_of (Vaccination (fold (write_motive mb a) ms c)) m =
     (if \<not> disabling a \<and> m \<in> set ms then Some (motive_name mb m) else map_of (Vaccination c) m)"
  by (induction ms arbitrary: c) (auto simp: write_motive_def update_conv')

lemma fold_write_Disabled:
  "map_of (DisabledVaccination (fold (write_motive mb a) ms c)) m =
     (if disabling a \<and> m \<in> set ms then Some (motive_name mb m) else map_of (DisabledVaccination c) m)"
  by (induction ms arbitrary: c) (auto simp: write_motive_def update_conv')

lemma fold_write_distinct:
  "distinct (map fst (Vaccination c)) \<Longrightarrow> distinct (map fst (DisabledVaccination c)) \<Longrightarrow>
   distinct (map fst (Vaccination (fold (write_motive mb a) ms c))) \<and>
   distinct (map fst (DisabledVaccination (fold (write_motive mb a) ms c)))"
  by (induction ms arbitrary: c) (auto simp: write_motive_def distinct_update)

lemma fold_agenda_ID [simp]: "ID (fold (add_agenda mb) as c) = ID c"
  by (induction as arbitrary: c) (auto simp: add_agenda_def)
lemma fold_agenda_Name [simp]: "Name (fold (add_agenda mb) as c) = Name c"
  by (induction as arbitrary: c) (auto simp: add_agenda_def)
lemma fold_agenda_AgendaIDs: "AgendaIDs (fold (add_agenda mb) as c) = AgendaIDs c @ map Agenda_ID as"
  by (induction as arbitrary: c) (auto simp: add_agenda_def)

lemma fold_agenda_Vaccination:
  "map_of (Vaccination (fold (add_agenda mb) as c)) m =
     (if \<exists>a\<in>set as. \<not> disabling a \<and> m \<in> set (VisitMotives a)
      then Some (motive_name mb m) else map_of (Vaccination c) m)"
  by (induction as arbitrary: c) (auto simp: add_agenda_def fold_write_Vaccination)

lemma fold_agenda_Disabled:
  "map_of (DisabledVaccination (fold (add_agenda mb) as c)) m =
     (if \<exists>a\<in>set as. disabling a \<and> m \<in> set (VisitMotives a)
      then Some (motive_name mb m) else map_of (DisabledVaccination c) m)"
  by (induction as arbitrary: c) (auto simp: add_agenda_def fold_write_Disabled)

lemma fold_agenda_distinct:
  "distinct (map fst (Vaccination c)) \<Longrightarrow> distinct (map fst (DisabledVaccination c)) \<Longrightarrow>
   distinct (map fst (Vaccination (fold (add_agenda mb) as c))) \<and>
   distinct (map fst (DisabledVaccination (fold (add_agenda mb) as c)))"
proof (induction as arbitrary: c)
  case Nil then show ?case by simp
next
  case (Cons a as)
  have "distinct (map fst (Vaccination (add_agenda mb a c))) \<and>
        distinct (map fst (DisabledVaccination (add_agenda mb a c)))"
    unfolding add_agenda_def using Cons.prems by (intro fold_write_distinct) simp_all
  then show ?case using Cons.IH by simp
qed

subsection \<open>The loop over the agendas\<close>

lemma agendas_loop_Returns:
  "agendas_loop mb as pb = Returns pb' \<Longrightarrow>
     map fst pb' = map fst pb \<and>
     (\<forall>k c. map_of pb k = Some c \<longrightarrow>
         map_of pb' k = Some (fold (add_agenda mb) (filter (\<lambda>a. PracticeID a = k) as) c))"
proof (induction as arbitrary: pb)
  case Nil then show ?case by simp
next
  case (Cons a as)
  from Cons.prems obtain c0 where c0: "map_of pb (PracticeID a) = Some c0"
    and rest: "agendas_loop mb as (AList.update (PracticeID a) (add_agenda mb a c0) pb) = Returns pb'"
    by (auto split: option.splits)
  let ?pb1 = "AList.update (PracticeID a) (add_agenda mb a c0) pb"
  from c0 have "PracticeID a \<in> fst ` set pb" by (metis map_of_eq_None_iff option.distinct(1))
  then have keys: "map fst ?pb1 = map fst pb" by (rule update_present_keys)
  from Cons.IH [OF rest] have ih1: "map fst pb' = map fst ?pb1"
    and ih2: "\<And>k c. map_of ?pb1 k = Some c \<Longrightarrow>
         map_of pb' k = Some (fold (add_agenda mb) (filter (\<lambda>a. PracticeID a = k) as) c)"
    by blast+
  show ?case
  proof (intro conjI allI impI)
    show "map fst pb' = map fst pb" using ih1 keys by simp
  next
    fix k c assume kc: "map_of pb k = Some c"
    show "map_of pb' k = Some (fold (add_agenda mb) (filter (\<lambda>a. PracticeID a = k) (a # as)) c)"
    proof (cases "PracticeID a = k")
      case True
      then have "map_of ?pb1 k = Some (add_agenda mb a c0)" by (simp add: update_conv')
      from ih2 [OF this] True kc c0 show ?thesis by simp
    next
      case False
      then have "map_of ?pb1 k = Some c" using kc by (simp add: update_conv')
      from ih2 [OF this] False show ?thesis by simp
    qed
  qed
qed

lemma agendas_loop_Panics_iff:
  "agendas_loop mb as pb = Panics \<longleftrightarrow> (\<exists>a\<in>set as. PracticeID a \<notin> fst ` set pb)"
proof (induction as arbitrary: pb)
  case Nil then show ?case by simp
next
  case (Cons a as)
  show ?case
  proof (cases "map_of pb (PracticeID a)")
    case None
    then have "PracticeID a \<notin> fst ` set pb" by (simp add: map_of_eq_None_iff)
    then show ?thesis using None by auto
  next
    case (Some c0)
    then have "PracticeID a \<in> fst ` set pb" by (metis map_of_eq_None_iff option.distinct(1))
    moreover have "fst ` set (AList.update (PracticeID a) (add_agenda mb a c0) pb) = fst ` set pb"
      using calculation by (auto simp: dom_update)
    ultimately show ?thesis using Some Cons.IH by simp
  qed
qed

subsection \<open>The loop over the places\<close>

lemma keyed_places_simps [simp]:
  "keyed_places [] = []"
  "keyed_places (p # ps) = place_key p @ keyed_places ps"
  by (simp_all add: keyed_places_def)

lemma add_place_keys:
  "fst ` set (add_place p acc) = fst ` set acc \<union> fst ` set (place_key p)"
  by (auto simp: add_place_def place_key_def dom_update split: list.splits)

lemma add_place_distinct:
  "distinct (map fst acc) \<Longrightarrow> distinct (map fst (add_place p acc))"
  by (auto simp: add_place_def distinct_update split: list.splits)

lemma add_place_map_of:
  "map_of (add_place p acc) k =
     (case map_of (place_key p) k of
        Some n \<Rightarrow> Some (new_center p k)
      | None \<Rightarrow> map_of acc k)"
  by (auto simp: add_place_def place_key_def update_conv' split: list.splits)

lemma fold_add_place_keys:
  "fst ` set (fold add_place ps acc) = fst ` set acc \<union> fst ` set (keyed_places ps)"
  by (induction ps arbitrary: acc) (auto simp: add_place_keys)

lemma fold_add_place_distinct:
  "distinct (map fst acc) \<Longrightarrow> distinct (map fst (fold add_place ps acc))"
  by (induction ps arbitrary: acc) (auto simp: add_place_distinct)

lemma fold_add_place_map_of:
  "map_of (fold add_place ps acc) k =
     (case map_of (rev (keyed_places ps)) k of
        Some n \<Rightarrow> Some (fresh k n)
      | None \<Rightarrow> map_of acc k)"
proof (induction ps arbitrary: acc)
  case Nil then show ?case by simp
next
  case (Cons p ps)
  show ?case
    by (auto simp: Cons.IH add_place_map_of map_add_def place_key_def new_center_def fresh_def
             split: option.splits list.splits)
qed

lemma fold_add_place_fresh_keys:
  "distinct (map fst (keyed_places ps)) \<Longrightarrow> fst ` set acc \<inter> fst ` set (keyed_places ps) = {} \<Longrightarrow>
   map (\<lambda>kc. (fst kc, Name (snd kc))) (fold add_place ps acc) =
   map (\<lambda>kc. (fst kc, Name (snd kc))) acc @ keyed_places ps"
proof (induction ps arbitrary: acc)
  case Nil then show ?case by simp
next
  case (Cons p ps)
  show ?case
  proof (cases "PractiseIDs p")
    case Nil
    then have "place_key p = []" "add_place p acc = acc"
      by (simp_all add: place_key_def add_place_def)
    then show ?thesis using Cons by simp
  next
    case ids: (Cons i rest)
    then have pk: "place_key p = [(i, Place_Name p)]" by (simp add: place_key_def)
    have inot: "i \<notin> fst ` set acc" using Cons.prems(2) pk by auto
    then have ap: "add_place p acc = acc @ [(i, new_center p i)]"
      by (simp add: add_place_def ids update_fresh)
    have d: "distinct (map fst (keyed_places ps))" using Cons.prems(1) by simp
    have "i \<notin> fst ` set (keyed_places ps)" using Cons.prems(1) pk by auto
    then have dj: "fst ` set (add_place p acc) \<inter> fst ` set (keyed_places ps) = {}"
      using Cons.prems(2) ap by auto
    show ?thesis using Cons.IH [OF d dj] ap pk by (simp add: new_center_def)
  qed
qed

subsection \<open>The centers of a catalog\<close>

lemma practiceByID_keys: "fst ` set (practiceByID ps) = fst ` set (keyed_places ps)"
  by (simp add: practiceByID_def fold_add_place_keys)

lemma practiceByID_distinct: "distinct (map fst (practiceByID ps))"
  by (simp add: practiceByID_def fold_add_place_distinct)

lemma practiceByID_map_of:
  "map_of (practiceByID ps) k = map_option (fresh k) (map_of (rev (keyed_places ps)) k)"
  by (simp add: practiceByID_def fold_add_place_map_of split: option.splits)

lemma classify_Panics_iff: "classify ciz = Panics \<longleftrightarrow> \<not> no_orphans ciz"
proof -
  have "classify ciz = Panics \<longleftrightarrow>
        agendas_loop (motiveByID (Data_VisitMotives ciz)) (Data_Agendas ciz)
          (practiceByID (Data_Places ciz)) = Panics"
    by (simp add: classify_def split: go.splits)
  then show ?thesis
    by (simp add: agendas_loop_Panics_iff practiceByID_keys no_orphans_def)
qed

lemma classify_Returns_iff: "(\<exists>cs. classify ciz = Returns cs) \<longleftrightarrow> no_orphans ciz"
  using classify_Panics_iff [of ciz] by (cases "classify ciz") auto

lemma classify_entries:
  assumes "classify ciz = Returns cs"
  obtains pb where "cs = map snd pb" "map fst pb = map fst (practiceByID (Data_Places ciz))"
    "\<And>k c. (k, c) \<in> set pb \<longleftrightarrow>
        (\<exists>n. map_of (rev (keyed_places (Data_Places ciz))) k = Some n \<and> c = final_center ciz k n)"
proof -
  let ?mb = "motiveByID (Data_VisitMotives ciz)"
  let ?pb0 = "practiceByID (Data_Places ciz)"
  from assms obtain pb where run: "agendas_loop ?mb (Data_Agendas ciz) ?pb0 = Returns pb"
    and cs: "cs = map snd pb"
    by (auto simp: classify_def split: go.splits)
  from agendas_loop_Returns [OF run]
  have keys: "map fst pb = map fst ?pb0"
    and vals: "\<And>k c. map_of ?pb0 k = Some c \<Longrightarrow>
        map_of pb k = Some (fold (add_agenda ?mb) (filter (\<lambda>a. PracticeID a = k) (Data_Agendas ciz)) c)"
    by blast+
  have dist: "distinct (map fst pb)" using keys practiceByID_distinct by simp
  have "(k, c) \<in> set pb \<longleftrightarrow>
        (\<exists>n. map_of (rev (keyed_places (Data_Places ciz))) k = Some n \<and> c = final_center ciz k n)" for k c
  proof
    assume kc: "(k, c) \<in> set pb"
    then have m: "map_of pb k = Some c" using dist by simp
    from kc have "k \<in> fst ` set ?pb0" using keys by (metis fst_conv image_eqI set_map)
    then obtain c0 where c0: "map_of ?pb0 k = Some c0"
      by (metis map_of_eq_None_iff not_Some_eq)
    then obtain n where n: "map_of (rev (keyed_places (Data_Places ciz))) k = Some n" "c0 = fresh k n"
      by (auto simp: practiceByID_map_of)
    from vals [OF c0] m n show "\<exists>n. map_of (rev (keyed_places (Data_Places ciz))) k = Some n \<and> c = final_center ciz k n"
      by (auto simp: final_center_def agendas_of_def)
  next
    assume "\<exists>n. map_of (rev (keyed_places (Data_Places ciz))) k = Some n \<and> c = final_center ciz k n"
    then obtain n where n: "map_of (rev (keyed_places (Data_Places ciz))) k = Some n" "c = final_center ciz k n"
      by blast
    then have "map_of ?pb0 k = Some (fresh k n)" by (simp add: practiceByID_map_of)
    from vals [OF this] n have "map_of pb k = Some c" by (simp add: final_center_def agendas_of_def)
    then show "(k, c) \<in> set pb" by (rule map_of_SomeD)
  qed
  with cs keys show ?thesis using that by blast
qed

lemma final_center_ID [simp]: "ID (final_center ciz k n) = k"
  by (simp add: final_center_def fresh_def)

lemma final_center_Name [simp]: "Name (final_center ciz k n) = n"
  by (simp add: final_center_def fresh_def)

lemma final_center_AgendaIDs: "AgendaIDs (final_center ciz k n) = map Agenda_ID (agendas_of ciz k)"
  by (simp add: final_center_def fresh_def fold_agenda_AgendaIDs)

lemma final_center_Vaccination:
  "map_of (Vaccination (final_center ciz k n)) m =
     (if m \<in> types_of ciz k False then Some (motive_name (motiveByID (Data_VisitMotives ciz)) m) else None)"
  by (auto simp: final_center_def fresh_def fold_agenda_Vaccination types_of_def)

lemma final_center_Disabled:
  "map_of (DisabledVaccination (final_center ciz k n)) m =
     (if m \<in> types_of ciz k True then Some (motive_name (motiveByID (Data_VisitMotives ciz)) m) else None)"
  by (auto simp: final_center_def fresh_def fold_agenda_Disabled types_of_def)

lemma final_center_distinct:
  "distinct (map fst (Vaccination (final_center ciz k n)))"
  "distinct (map fst (DisabledVaccination (final_center ciz k n)))"
  using fold_agenda_distinct [of "fresh k n" "motiveByID (Data_VisitMotives ciz)" "agendas_of ciz k"]
  by (simp_all add: final_center_def fresh_def)

lemma classify_center:
  assumes "classify ciz = Returns cs" "c \<in> set cs"
  shows "\<exists>n. map_of (rev (keyed_places (Data_Places ciz))) (ID c) = Some n \<and> c = final_center ciz (ID c) n"
proof -
  from classify_entries [OF assms(1)] obtain pb where pb: "cs = map snd pb"
    "\<And>k c. (k, c) \<in> set pb \<longleftrightarrow>
        (\<exists>n. map_of (rev (keyed_places (Data_Places ciz))) k = Some n \<and> c = final_center ciz k n)"
    by blast
  from assms(2) pb(1) obtain k where "(k, c) \<in> set pb" by auto
  with pb(2) obtain n where "map_of (rev (keyed_places (Data_Places ciz))) k = Some n" "c = final_center ciz k n"
    by blast
  then show ?thesis by auto
qed

lemma classify_distinct_ID:
  assumes "classify ciz = Returns cs"
  shows "distinct (map ID cs)" "set (map ID cs) = fst ` set (keyed_places (Data_Places ciz))"
proof -
  from classify_entries [OF assms(1)] obtain pb where pb: "cs = map snd pb"
    "map fst pb = map fst (practiceByID (Data_Places ciz))"
    "\<And>k c. (k, c) \<in> set pb \<longleftrightarrow>
        (\<exists>n. map_of (rev (keyed_places (Data_Places ciz))) k = Some n \<and> c = final_center ciz k n)"
    by blast
  have "map ID cs = map fst pb" unfolding pb(1) using pb(3) by (auto simp: map_eq_conv)
  then have eq: "map ID cs = map fst (practiceByID (Data_Places ciz))" using pb(2) by simp
  show "distinct (map ID cs)" unfolding eq by (rule practiceByID_distinct)
  show "set (map ID cs) = fst ` set (keyed_places (Data_Places ciz))"
    unfolding eq using practiceByID_keys by simp
qed

section \<open>The events of a cycle, pair by pair\<close>

lemma events_of_append [simp]: "events_of pr (xs @ ys) = events_of pr xs @ events_of pr ys"
  by (simp add: events_of_def)

lemma events_of_concat: "events_of pr (concat xss) = concat (map (events_of pr) xss)"
  by (induction xss) (simp_all add: events_of_def)

lemma events_of_enabled:
  "events_of (k, m) (enabled_events w c kv) =
     (if k = ID c \<and> m = fst kv
      then impfzentrum (Name c) (snd kv) ''false'' # CollectAvailability w c (fst kv) (snd kv)
      else [])"
  by (auto simp: events_of_def enabled_events_def filter_map comp_def)

lemma events_of_disabled:
  "events_of (k, m) (disabled_events c kv) =
     (if k = ID c \<and> m = fst kv then [impfzentrum (Name c) (snd kv) ''true''] else [])"
  by (auto simp: events_of_def disabled_events_def)

lemma concat_map_key:
  "distinct (map fst al) \<Longrightarrow>
   concat (map (\<lambda>kv. if m = fst kv then g (fst kv) (snd kv) else []) al) =
     (case map_of al m of None \<Rightarrow> [] | Some v \<Rightarrow> g m v)"
proof (induction al)
  case Nil then show ?case by simp
next
  case (Cons kv al)
  obtain k v where kv: "kv = (k, v)" by (cases kv)
  show ?case
  proof (cases "m = k")
    case True
    then have "m \<notin> fst ` set al" using Cons.prems kv by auto
    then have "concat (map (\<lambda>kv. if m = fst kv then g (fst kv) (snd kv) else []) al) = []"
      by (induction al) auto
    then show ?thesis using True kv by simp
  next
    case False
    then show ?thesis using Cons kv by simp
  qed
qed

lemma concat_map_none: "concat (map (\<lambda>x. []) xs) = []"
  by (induction xs) simp_all

lemma events_of_center:
  assumes "distinct (map fst (Vaccination c))" "distinct (map fst (DisabledVaccination c))"
  shows "events_of (k, m) (center_events w c) = (if k = ID c then pair_events w c m else [])"
proof (cases "k = ID c")
  case True
  have e: "concat (map (events_of (k, m)) (map (enabled_events w c) (Vaccination c))) =
        (case map_of (Vaccination c) m of None \<Rightarrow> []
         | Some n \<Rightarrow> impfzentrum (Name c) n ''false'' # CollectAvailability w c m n)"
    using concat_map_key [OF assms(1), of m
        "\<lambda>k v. impfzentrum (Name c) v ''false'' # CollectAvailability w c k v"]
    by (simp add: events_of_enabled True comp_def cong: if_cong)
  have d: "concat (map (events_of (k, m)) (map (disabled_events c) (DisabledVaccination c))) =
        (case map_of (DisabledVaccination c) m of None \<Rightarrow> []
         | Some v \<Rightarrow> [impfzentrum (Name c) v ''true''])"
    using concat_map_key [OF assms(2), of m "\<lambda>k v. [impfzentrum (Name c) v ''true'']"]
    by (simp add: events_of_disabled True comp_def cong: if_cong)
  show ?thesis using True e d by (simp add: center_events_def events_of_concat pair_events_def)
next
  case False
  then show ?thesis
    by (simp add: center_events_def events_of_concat events_of_enabled events_of_disabled
          comp_def concat_map_none)
qed

lemma concat_map_select:
  "distinct (map f xs) \<Longrightarrow> x \<in> set xs \<Longrightarrow>
   concat (map (\<lambda>y. if f x = f y then g y else []) xs) = g x"
proof (induction xs)
  case Nil then show ?case by simp
next
  case (Cons y ys)
  show ?case
  proof (cases "x = y")
    case True
    then have "f x \<notin> f ` set ys" using Cons.prems by auto
    then have "concat (map (\<lambda>y. if f x = f y then g y else []) ys) = []"
      by (induction ys) auto
    then show ?thesis using True by simp
  next
    case False
    then have "x \<in> set ys" using Cons.prems by simp
    moreover from this have "f x \<in> f ` set ys" by (rule imageI)
    then have "f x \<noteq> f y" using Cons.prems(1) by auto
    ultimately show ?thesis using Cons by simp
  qed
qed

lemma Impfzentren_Returns:
  assumes "Impfzentren r = Returns (Inr cs)"
  obtains ciz where "decode r = Inr ciz" "classify ciz = Returns cs"
  using assms by (auto simp: Impfzentren_def split: sum.splits go.splits)

lemma classify_center_distinct:
  assumes "classify ciz = Returns cs" "c \<in> set cs"
  shows "distinct (map fst (Vaccination c))" "distinct (map fst (DisabledVaccination c))"
proof -
  from classify_center [OF assms] obtain n where "c = final_center ciz (ID c) n" by blast
  then show "distinct (map fst (Vaccination c))" "distinct (map fst (DisabledVaccination c))"
    using final_center_distinct [of ciz "ID c" n] by simp_all
qed

lemma Collect_Returns:
  assumes "Impfzentren (catalog w) = Returns (Inr cs)"
  shows "Collect w = Returns (concat (map (center_events w) cs))"
  using assms by (simp add: Collect_def)

lemma events_of_Collect:
  assumes "Impfzentren (catalog w) = Returns (Inr cs)" "c \<in> set cs"
  shows "events_of (ID c, m) (concat (map (center_events w) cs)) = pair_events w c m"
proof -
  from assms(1) obtain ciz where ciz: "classify ciz = Returns cs" by (rule Impfzentren_Returns)
  have dist: "distinct (map ID cs)" using classify_distinct_ID(1) [OF ciz] .
  have "events_of (ID c, m) (concat (map (center_events w) cs)) =
        concat (map (\<lambda>c'. events_of (ID c, m) (center_events w c')) cs)"
    by (simp add: events_of_concat comp_def)
  also have "\<dots> = concat (map (\<lambda>c'. if ID c = ID c' then pair_events w c' m else []) cs)"
    by (rule arg_cong [where f = concat], rule map_cong [OF refl])
       (simp add: events_of_center classify_center_distinct [OF ciz])
  also have "\<dots> = pair_events w c m"
    using concat_map_select [OF dist assms(2), of "\<lambda>c'. pair_events w c' m"] .
  finally show ?thesis .
qed

lemma keys_dom: "fst ` set al = dom (map_of al)"
  by (simp add: dom_map_of_conv_image_fst)

lemma classify_Returns:
  assumes "no_orphans ciz"
  obtains cs where "classify ciz = Returns cs"
  using assms classify_Returns_iff by blast

lemma center_of_practice:
  assumes "classify ciz = Returns cs" "k \<in> fst ` set (keyed_places (Data_Places ciz))"
  obtains c where "c \<in> set cs" "ID c = k" "\<And>c'. c' \<in> set cs \<Longrightarrow> ID c' = k \<Longrightarrow> c' = c"
proof -
  from assms(2) classify_distinct_ID(2) [OF assms(1)] have "k \<in> ID ` set cs" by simp
  then obtain c where c: "c \<in> set cs" "ID c = k" by blast
  have "c' = c" if "c' \<in> set cs" "ID c' = k" for c'
    using that c classify_distinct_ID(1) [OF assms(1)] by (simp add: distinct_map inj_on_def)
  with c show ?thesis using that by blast
qed

lemma classify_Vaccination:
  assumes "classify ciz = Returns cs" "c \<in> set cs"
  shows "map_of (Vaccination c) m =
     (if m \<in> types_of ciz (ID c) False
      then Some (motive_name (motiveByID (Data_VisitMotives ciz)) m) else None)"
proof -
  from classify_center [OF assms] obtain n where c: "c = final_center ciz (ID c) n" by blast
  show ?thesis using final_center_Vaccination [of ciz "ID c" n m] c by simp
qed

lemma classify_Disabled:
  assumes "classify ciz = Returns cs" "c \<in> set cs"
  shows "map_of (DisabledVaccination c) m =
     (if m \<in> types_of ciz (ID c) True
      then Some (motive_name (motiveByID (Data_VisitMotives ciz)) m) else None)"
proof -
  from classify_center [OF assms] obtain n where c: "c = final_center ciz (ID c) n" by blast
  show ?thesis using final_center_Disabled [of ciz "ID c" n m] c by simp
qed

lemma types_ofI:
  "a \<in> set (Data_Agendas ciz) \<Longrightarrow> m \<in> set (VisitMotives a) \<Longrightarrow>
   m \<in> types_of ciz (PracticeID a) (disabling a)"
  by (auto simp: types_of_def agendas_of_def)

section \<open>The name of a visit motive\<close>

lemma fold_motive_keys:
  "fst ` set (fold (\<lambda>m acc. AList.update (VisitMotive_ID m) (VisitMotive_Name m) acc) ms acc) =
     fst ` set acc \<union> VisitMotive_ID ` set ms"
  by (induction ms arbitrary: acc) (auto simp: dom_update)

lemma motive_name_unknown:
  "m \<notin> VisitMotive_ID ` set ms \<Longrightarrow> motive_name (motiveByID ms) m = []"
proof -
  assume "m \<notin> VisitMotive_ID ` set ms"
  then have "m \<notin> fst ` set (motiveByID ms)" by (simp add: motiveByID_def fold_motive_keys)
  then have "map_of (motiveByID ms) m = None" by (simp add: map_of_eq_None_iff)
  then show ?thesis by (simp add: motive_name_def)
qed

section \<open>The task of one pair\<close>

lemma first_window_find:
  "first_window ws = (case find (\<lambda>a. Slots a \<noteq> []) ws of None \<Rightarrow> [] | Some a \<Rightarrow> Date a)"
  by (induction ws) simp_all

lemma CollectAvailability_cases:
  "CollectAvailability w c m n =
     [Log (Calling (ID c) m (AgendaIDs c)), Get (ID c) m (AgendaIDs c)] @
     (case decode (availabilities w (ID c) m (AgendaIDs c)) of
        Inl err \<Rightarrow> [Log (FailedToGetAvailabilities (Name c) err)]
      | Inr r \<Rightarrow>
          Log (Response r) #
          (if nextDate r = [] then []
           else case parse_date w (nextDate r) of
                  None \<Rightarrow> [Log (FailedToParseNextSlot (nextDate r))]
                | Some t \<Rightarrow> [next_slot (Name c) n (days_until w t)]))"
  by (simp add: CollectAvailability_def GetAvailabilities_def split: sum.splits)

lemma CollectAvailability_no_date:
  assumes "decode (availabilities w (ID c) m (AgendaIDs c)) = Inr r" "nextDate r = []"
  shows "CollectAvailability w c m n =
     [Log (Calling (ID c) m (AgendaIDs c)), Get (ID c) m (AgendaIDs c), Log (Response r)]"
  using assms by (simp add: CollectAvailability_def GetAvailabilities_def)

lemma fetch_fails_decode: "fetch_fails r \<longleftrightarrow> (\<exists>err. decode r = Inl err)"
  by (cases r) (auto split: payload.splits)

lemma pair_fails_decode:
  "pair_fails w c m \<longleftrightarrow>
     (case decode (availabilities w (ID c) m (AgendaIDs c)) of
        Inl err \<Rightarrow> True
      | Inr r \<Rightarrow> nextDate r \<noteq> [] \<and> parse_date w (nextDate r) = None)"
  by (cases "availabilities w (ID c) m (AgendaIDs c)")
     (auto simp: pair_fails_def split: payload.splits)

lemma CollectAvailability_fails:
  assumes "pair_fails w c m" "e \<in> set (CollectAvailability w c m n)"
  shows "\<not> is_sample e"
  using assms unfolding pair_fails_decode CollectAvailability_cases
  by (auto split: sum.splits)

lemma is_next_slot_sample: "is_next_slot e \<Longrightarrow> is_sample e"
  by (cases e) simp_all

lemma CollectAvailability_agree:
  assumes "availabilities w' (ID c) m (AgendaIDs c) = availabilities w (ID c) m (AgendaIDs c)"
    "parse_date w' = parse_date w" "days_until w' = days_until w"
  shows "CollectAvailability w' c m n = CollectAvailability w c m n"
  by (simp only: CollectAvailability_cases assms)

lemma Get_in_CollectAvailability:
  assumes "Get p q as \<in> set (CollectAvailability w c m n)"
  shows "p = ID c \<and> q = m"
proof (cases "decode (availabilities w (ID c) m (AgendaIDs c))")
  case (Inl err)
  with assms show ?thesis by (simp add: CollectAvailability_def GetAvailabilities_def)
next
  case (Inr r)
  with assms show ?thesis
    by (cases "parse_date w (nextDate r)")
       (simp_all add: CollectAvailability_def GetAvailabilities_def split: if_splits)
qed

lemma sample_in_CollectAvailability:
  "impfzentrum x t d \<notin> set (CollectAvailability w c m n)"
  "next_slot x t v \<in> set (CollectAvailability w c m n) \<Longrightarrow> t = n"
  by (auto simp: CollectAvailability_cases split: sum.splits option.splits if_splits)

section \<open>The cycle\<close>

lemma events_of_center_agree:
  assumes "\<forall>p q as. (p, q) \<noteq> pr0 \<longrightarrow> availabilities w' p q as = availabilities w p q as"
    "parse_date w' = parse_date w" "days_until w' = days_until w" "pr \<noteq> pr0"
  shows "events_of pr (center_events w' c) = events_of pr (center_events w c)"
proof -
  obtain k m where pr: "pr = (k, m)" by (cases pr)
  have "events_of (k, m) (enabled_events w' c kv) = events_of (k, m) (enabled_events w c kv)" for kv
  proof (cases "k = ID c \<and> m = fst kv")
    case True
    then have "(ID c, fst kv) \<noteq> pr0" using assms(4) pr by simp
    then have "availabilities w' (ID c) (fst kv) (AgendaIDs c) =
               availabilities w (ID c) (fst kv) (AgendaIDs c)" using assms(1) by blast
    from CollectAvailability_agree [OF this assms(2,3)] show ?thesis
      by (simp add: events_of_enabled)
  next
    case False
    then show ?thesis by (auto simp: events_of_enabled)
  qed
  then show ?thesis unfolding pr by (simp add: center_events_def events_of_concat comp_def)
qed

lemma Get_in_center_events:
  assumes "(t, Get p q as) \<in> set (center_events w c)"
  shows "t = Some (p, q)"
proof -
  from assms obtain kv where "kv \<in> set (Vaccination c)" "t = Some (ID c, fst kv)"
    "Get p q as \<in> set (CollectAvailability w c (fst kv) (snd kv))"
    by (auto simp: center_events_def enabled_events_def disabled_events_def)
  then show ?thesis using Get_in_CollectAvailability by blast
qed

lemma Get_in_cycle:
  "(t, Get p q as) \<in> set (concat (map (center_events w) cs)) \<Longrightarrow> t = Some (p, q)"
  by (auto dest: Get_in_center_events)

lemma in_events_of: "e \<in> set (events_of pr out) \<longleftrightarrow> (Some pr, e) \<in> set out"
  by (force simp: events_of_def)

lemma sample_in_pair_events:
  assumes "\<forall>v. map_of (Vaccination c) m = Some v \<longrightarrow> v = n"
    "\<forall>v. map_of (DisabledVaccination c) m = Some v \<longrightarrow> v = n"
  shows "impfzentrum x t d \<in> set (pair_events w c m) \<Longrightarrow> t = n"
    "next_slot x t v \<in> set (pair_events w c m) \<Longrightarrow> t = n"
proof -
  assume "impfzentrum x t d \<in> set (pair_events w c m)"
  then show "t = n"
    using assms sample_in_CollectAvailability(1) [of x t d w c m]
    by (auto simp: pair_events_def split: option.splits)
next
  assume a: "next_slot x t v \<in> set (pair_events w c m)"
  show "t = n"
  proof (cases "map_of (Vaccination c) m")
    case None
    with a show ?thesis by (auto simp: pair_events_def split: option.splits)
  next
    case (Some u)
    with a have "next_slot x t v \<in> set (CollectAvailability w c m u)"
      by (auto simp: pair_events_def split: option.splits)
    from sample_in_CollectAvailability(2) [OF this] Some assms(1) show ?thesis by simp
  qed
qed

lemma map_of_rev_distinct:
  "distinct (map fst al) \<Longrightarrow> map_of (rev al) = map_of al"
  by (rule ext) (metis distinct_rev map_of_eq_None_iff map_of_is_SomeI map_of_SomeD
       not_Some_eq rev_map set_rev)

section \<open>Evaluating the examples\<close>

lemmas run_defs = classify_def practiceByID_def add_place_def new_center_def motiveByID_def
  add_agenda_def write_motive_def disabling_def motive_name_def Impfzentren_def Collect_def
  center_events_def enabled_events_def disabled_events_def CollectAvailability_def
  GetAvailabilities_def nextDate_def

lemmas example_defs = agenda_def biontech_def moderna_def messe_def tegel_def ciz_orphan_def
  ciz_twice_def ciz_earlier_def ciz_shared_def ciz_two_def center_messe_def center_tegel_def
  center_twice_def response_def slot_def response_windows_def response_undated_def
  parse10_def day_of_def world_of_def all_windows_def one_down_def

lemma Impfzentren_two:
  "Impfzentren (Reply 200 (Json ciz_two)) = Returns (Inr [center_messe, center_tegel])"
  by (simp add: run_defs example_defs)

section \<open>Claims\<close>

subsection \<open>C1: an agenda of an unknown practice\<close>

text \<open>
  C1. The specification asks that an agenda whose practice id has no center is skipped with
  a warning and the remaining agendas are processed. The source does not do this: on the
  catalog \<open>ciz_orphan\<close>, whose first agenda belongs to practice 5 while the only place lists
  practice 1 first, the lookup in line 232 yields nil, the classifier panics before it
  reaches the second agenda, and \<open>Collect\<close> panics with it instead of emitting samples.
\<close>

theorem orphan_agenda_panics:
  "classify ciz_orphan = Panics \<and> Collect (world_of (Reply 200 (Json ciz_orphan)) all_windows) = Panics"
  by (simp add: run_defs example_defs)

subsection \<open>C2: a type in both mappings\<close>

text \<open>
  C2, as stated, fails: on \<open>ciz_twice\<close> type 7 of practice 1 is written into the enabled
  mapping by agenda 10 and into the disabled mapping by agenda 11, and neither write
  removes it from the other mapping.
\<close>

theorem overlap_counterexample:
  "classify ciz_twice = Returns [center_twice] \<and>
   map_of (Vaccination center_twice) 7 = Some ''BioNTech'' \<and>
   map_of (DisabledVaccination center_twice) 7 = Some ''BioNTech''"
  by (simp add: run_defs example_defs)

text \<open>
  C2, amended. For every center that classification produces, the type ids that the two
  mappings share are exactly those referenced both by an agenda of the center without a
  disable flag and by an agenda of the center with one. The mappings are therefore
  disjoint exactly when no type of the center is referenced by agendas of both kinds.
\<close>

theorem common_types:
  assumes "classify ciz = Returns cs" "c \<in> set cs"
  shows "fst ` set (Vaccination c) \<inter> fst ` set (DisabledVaccination c) =
         types_of ciz (ID c) False \<inter> types_of ciz (ID c) True"
proof -
  from classify_center [OF assms] obtain n where c: "c = final_center ciz (ID c) n" by blast
  have "dom (map_of (Vaccination (final_center ciz (ID c) n))) = types_of ciz (ID c) False"
    by (auto simp: final_center_Vaccination split: if_splits)
  moreover have "dom (map_of (DisabledVaccination (final_center ciz (ID c) n))) = types_of ciz (ID c) True"
    by (auto simp: final_center_Disabled split: if_splits)
  ultimately show ?thesis using c by (simp add: keys_dom)
qed

theorem common_types_witness:
  "classify ciz_two = Returns [center_messe, center_tegel] \<and>
   center_tegel \<in> set [center_messe, center_tegel] \<and>
   fst ` set (Vaccination center_tegel) \<inter> fst ` set (DisabledVaccination center_tegel) = {} \<and>
   types_of ciz_two 3 False \<inter> types_of ciz_two 3 True = {}"
proof -
  have h: "classify ciz_two = Returns [center_messe, center_tegel]"
    by (simp add: run_defs example_defs)
  have "ID center_tegel = 3" by (simp add: center_tegel_def)
  with common_types [OF h, of center_tegel] h show ?thesis
    by (simp add: center_tegel_def)
qed

subsection \<open>C3: a type referenced by a bookable agenda\<close>

text \<open>
  C3, as stated, fails: on \<open>ciz_earlier\<close> every agenda belongs to the one center, type 7 is
  referenced by the bookable agenda 11, no agenda comes after it, and still type 7 is in
  the disabled mapping, where the earlier agenda 10 put it.
\<close>

theorem earlier_disabling_counterexample:
  "no_orphans ciz_earlier \<and>
   classify ciz_earlier = Returns [center_twice] \<and>
   Data_Agendas ciz_earlier = [agenda 10 1 [7] True, agenda 11 1 [7] False] \<and>
   \<not> disabling (agenda 11 1 [7] False) \<and>
   map_of (Vaccination center_twice) 7 = Some ''BioNTech'' \<and>
   map_of (DisabledVaccination center_twice) 7 = Some ''BioNTech''"
  by (simp add: run_defs example_defs no_orphans_def keyed_places_def place_key_def)

text \<open>
  C3, amended. In a catalog in which every agenda's practice id is the first practice id
  of a place, classification returns, with exactly one center for the practice of each
  agenda; a type referenced by an agenda of that center that has no disable flag is in
  the enabled mapping under the name the catalog gives it, and it is absent from the
  disabled mapping exactly when no agenda of the center, earlier or later, both
  references it and has a disable flag set.
\<close>

theorem enabled_type:
  assumes "no_orphans ciz" "a \<in> set (Data_Agendas ciz)" "\<not> disabling a"
    "m \<in> set (VisitMotives a)"
  shows "\<exists>cs c. classify ciz = Returns cs \<and> c \<in> set cs \<and> ID c = PracticeID a \<and>
           (\<forall>c'\<in>set cs. ID c' = PracticeID a \<longrightarrow> c' = c) \<and>
           map_of (Vaccination c) m = Some (motive_name (motiveByID (Data_VisitMotives ciz)) m) \<and>
           (map_of (DisabledVaccination c) m = None \<longleftrightarrow>
              \<not> (\<exists>b\<in>set (Data_Agendas ciz).
                    PracticeID b = PracticeID a \<and> disabling b \<and> m \<in> set (VisitMotives b)))"
proof -
  from assms(1) obtain cs where cs: "classify ciz = Returns cs" by (rule classify_Returns)
  from assms(1,2) have "PracticeID a \<in> fst ` set (keyed_places (Data_Places ciz))"
    by (simp add: no_orphans_def)
  from center_of_practice [OF cs this] obtain c where c: "c \<in> set cs" "ID c = PracticeID a"
    "\<And>c'. c' \<in> set cs \<Longrightarrow> ID c' = PracticeID a \<Longrightarrow> c' = c" by blast
  have "m \<in> types_of ciz (ID c) False" using types_ofI [OF assms(2,4)] assms(3) c(2) by simp
  then have en: "map_of (Vaccination c) m = Some (motive_name (motiveByID (Data_VisitMotives ciz)) m)"
    by (simp add: classify_Vaccination [OF cs c(1)])
  have "m \<in> types_of ciz (ID c) True \<longleftrightarrow>
        (\<exists>b\<in>set (Data_Agendas ciz). PracticeID b = PracticeID a \<and> disabling b \<and> m \<in> set (VisitMotives b))"
    by (auto simp: types_of_def agendas_of_def c(2))
  then have dis: "map_of (DisabledVaccination c) m = None \<longleftrightarrow>
        \<not> (\<exists>b\<in>set (Data_Agendas ciz). PracticeID b = PracticeID a \<and> disabling b \<and> m \<in> set (VisitMotives b))"
    unfolding classify_Disabled [OF cs c(1)] by (simp split: if_splits) blast
  have u: "\<forall>c'\<in>set cs. ID c' = PracticeID a \<longrightarrow> c' = c" using c(3) by blast
  show ?thesis
    by (rule exI [of _ cs], rule exI [of _ c], intro conjI) (fact cs c(1,2) u en dis)+
qed

theorem enabled_type_witness:
  "no_orphans ciz_two \<and> agenda 10 1 [7, 8] False \<in> set (Data_Agendas ciz_two) \<and>
   \<not> disabling (agenda 10 1 [7, 8] False) \<and> 7 \<in> set (VisitMotives (agenda 10 1 [7, 8] False)) \<and>
   (\<exists>cs c. classify ciz_two = Returns cs \<and> c \<in> set cs \<and> ID c = 1 \<and>
      map_of (Vaccination c) 7 = Some ''BioNTech'' \<and> map_of (DisabledVaccination c) 7 = None)"
proof -
  have h1: "no_orphans ciz_two"
    by (simp add: example_defs no_orphans_def keyed_places_def place_key_def)
  have h2: "agenda 10 1 [7, 8] False \<in> set (Data_Agendas ciz_two)" by (simp add: ciz_two_def)
  have h3: "\<not> disabling (agenda 10 1 [7, 8] False)" by (simp add: agenda_def disabling_def)
  have h4: "7 \<in> set (VisitMotives (agenda 10 1 [7, 8] False))" by (simp add: agenda_def)
  have n: "motive_name (motiveByID (Data_VisitMotives ciz_two)) 7 = ''BioNTech''"
    by (simp add: example_defs motive_name_def motiveByID_def)
  have q: "\<not> (\<exists>b\<in>set (Data_Agendas ciz_two).
              PracticeID b = PracticeID (agenda 10 1 [7, 8] False) \<and> disabling b \<and> 7 \<in> set (VisitMotives b))"
    by (simp add: example_defs disabling_def)
  have p: "PracticeID (agenda 10 1 [7, 8] False) = 1" by (simp add: agenda_def)
  from enabled_type [OF h1 h2 h3 h4] obtain cs c where
    "classify ciz_two = Returns cs" "c \<in> set cs" "ID c = 1"
    "map_of (Vaccination c) 7 = Some ''BioNTech''" "map_of (DisabledVaccination c) 7 = None"
    unfolding n p using q unfolding p by blast
  then show ?thesis using h1 h2 h3 h4 by blast
qed

subsection \<open>C4: the next date\<close>

text \<open>
  C4, as stated, fails: in \<open>response_undated\<close> the first window with a slot has the empty
  date, so by the claim's rule the window decides and there is no next date; the source
  takes the empty string for "no window found" and resolves the top-level hint
  \<open>2024-02-01\<close>.
\<close>

theorem undated_window_counterexample:
  "find (\<lambda>a. Slots a \<noteq> []) (Availabilities response_undated) = Some \<lparr>Date = [], Slots = [slot]\<rparr> \<and>
   spec_next_date response_undated = [] \<and>
   nextDate response_undated = ''2024-02-01'' \<and>
   nextDate response_undated \<noteq> spec_next_date response_undated"
  by (simp add: nextDate_def spec_next_date_def example_defs)

text \<open>
  C4, amended. The resolved next date is the date of the first window, in returned order,
  whose slot list is non-empty, provided that date is not the empty string; if no window
  has a slot, or the first one that has carries an empty date, it is the top-level hint;
  an empty result means "no next date". On the windows of the specification's example,
  with no hint, the result is \<open>2024-01-12\<close>. With no next date the task logs the response
  and ends: no error is logged and no sample is emitted.
\<close>

theorem next_date_resolution:
  "nextDate r =
     (case find (\<lambda>a. Slots a \<noteq> []) (Availabilities r) of
        None \<Rightarrow> NextSlot r
      | Some a \<Rightarrow> if Date a = [] then NextSlot r else Date a) \<and>
   nextDate (r\<lparr>NextSlot := [],
                 Availabilities := [\<lparr>Date = ''2024-01-10'', Slots = []\<rparr>,
                                    \<lparr>Date = ''2024-01-12'', Slots = s # ss\<rparr>]\<rparr>) =
     ''2024-01-12'' \<and>
   (decode (availabilities w (ID c) m (AgendaIDs c)) = Inr r \<and> nextDate r = [] \<longrightarrow>
    CollectAvailability w c m n =
      [Log (Calling (ID c) m (AgendaIDs c)), Get (ID c) m (AgendaIDs c), Log (Response r)])"
proof (intro conjI impI)
  show "nextDate r =
     (case find (\<lambda>a. Slots a \<noteq> []) (Availabilities r) of
        None \<Rightarrow> NextSlot r
      | Some a \<Rightarrow> if Date a = [] then NextSlot r else Date a)"
    by (simp add: nextDate_def first_window_find split: option.splits)
  show "nextDate (r\<lparr>NextSlot := [],
                 Availabilities := [\<lparr>Date = ''2024-01-10'', Slots = []\<rparr>,
                                    \<lparr>Date = ''2024-01-12'', Slots = s # ss\<rparr>]\<rparr>) =
     ''2024-01-12''"
    by (simp add: nextDate_def)
  assume "decode (availabilities w (ID c) m (AgendaIDs c)) = Inr r \<and> nextDate r = []"
  then show "CollectAvailability w c m n =
      [Log (Calling (ID c) m (AgendaIDs c)), Get (ID c) m (AgendaIDs c), Log (Response r)]"
    by (simp add: CollectAvailability_no_date)
qed

theorem next_date_resolution_witness:
  "decode (availabilities (world_of NetworkFailure no_windows) (ID center_messe) 7 (AgendaIDs center_messe))
     = Inr (response [] []) \<and>
   nextDate (response [] []) = [] \<and>
   CollectAvailability (world_of NetworkFailure no_windows) center_messe 7 ''BioNTech'' =
     [Log (Calling 1 7 [10]), Get 1 7 [10], Log (Response (response [] []))]"
proof -
  have h: "decode (availabilities (world_of NetworkFailure no_windows) (ID center_messe) 7 (AgendaIDs center_messe))
     = Inr (response [] []) \<and> nextDate (response [] []) = []"
    by (simp add: world_of_def no_windows_def nextDate_def response_def)
  from next_date_resolution [of "response [] []" slot "[]" "world_of NetworkFailure no_windows"
      center_messe 7 "''BioNTech''"] h
  show ?thesis by (simp add: center_messe_def)
qed

subsection \<open>C5: disabled types\<close>

text \<open>
  C5, as stated, fails: on \<open>ciz_twice\<close> type 7 is in the disabled mapping of center 1 and
  in its enabled mapping too, and the cycle sends the availability request of the pair
  and emits its next-slot sample.
\<close>

theorem disabled_fetch_counterexample:
  "Impfzentren (catalog (world_of (Reply 200 (Json ciz_twice)) all_windows)) =
     Returns (Inr [center_twice]) \<and>
   map_of (DisabledVaccination center_twice) 7 = Some ''BioNTech'' \<and>
   Collect (world_of (Reply 200 (Json ciz_twice)) all_windows) =
     Returns
      [(Some (1, 7), impfzentrum ''Messe'' ''BioNTech'' ''false''),
       (Some (1, 7), Log (Calling 1 7 [10, 11])),
       (Some (1, 7), Get 1 7 [10, 11]),
       (Some (1, 7), Log (Response response_windows)),
       (Some (1, 7), next_slot ''Messe'' ''BioNTech'' 12),
       (Some (1, 7), impfzentrum ''Messe'' ''BioNTech'' ''true'')]"
  by (simp add: run_defs example_defs)

text \<open>
  C5, amended. For every center that classification produces and every type id that is in
  its disabled mapping and not in its enabled mapping, all that the cycle does for the
  pair is to emit one presence sample with disabled = "true"; no availability request for
  that practice and type is sent by any task.
\<close>

theorem disabled_pair:
  assumes "Impfzentren (catalog w) = Returns (Inr cs)" "c \<in> set cs"
    "map_of (DisabledVaccination c) m = Some v" "map_of (Vaccination c) m = None"
  shows "\<exists>out. Collect w = Returns out \<and>
           events_of (ID c, m) out = [impfzentrum (Name c) v ''true''] \<and>
           (\<forall>t as. (t, Get (ID c) m as) \<notin> set out)"
proof -
  let ?out = "concat (map (center_events w) cs)"
  have out: "Collect w = Returns ?out" by (rule Collect_Returns [OF assms(1)])
  have ev: "events_of (ID c, m) ?out = [impfzentrum (Name c) v ''true'']"
    by (simp add: events_of_Collect [OF assms(1,2)] pair_events_def assms(3,4))
  have "(t, Get (ID c) m as) \<notin> set ?out" for t as
  proof
    assume g: "(t, Get (ID c) m as) \<in> set ?out"
    then have "t = Some (ID c, m)" by (rule Get_in_cycle)
    with g have "Get (ID c) m as \<in> set (events_of (ID c, m) ?out)" by (simp add: in_events_of)
    then show False by (simp add: ev)
  qed
  with out ev show ?thesis by blast
qed

theorem disabled_pair_witness:
  "Impfzentren (catalog (world_of (Reply 200 (Json ciz_two)) all_windows)) =
     Returns (Inr [center_messe, center_tegel]) \<and>
   center_tegel \<in> set [center_messe, center_tegel] \<and>
   map_of (DisabledVaccination center_tegel) 7 = Some ''BioNTech'' \<and>
   map_of (Vaccination center_tegel) 7 = None \<and>
   (\<exists>out. Collect (world_of (Reply 200 (Json ciz_two)) all_windows) = Returns out \<and>
      events_of (3, 7) out = [impfzentrum ''Tegel'' ''BioNTech'' ''true''])"
proof -
  let ?w = "world_of (Reply 200 (Json ciz_two)) all_windows"
  have h1: "Impfzentren (catalog ?w) = Returns (Inr [center_messe, center_tegel])"
    by (simp add: world_of_def Impfzentren_two)
  have h2: "center_tegel \<in> set [center_messe, center_tegel]" by simp
  have h3: "map_of (DisabledVaccination center_tegel) 7 = Some ''BioNTech''"
    by (simp add: center_tegel_def)
  have h4: "map_of (Vaccination center_tegel) 7 = None" by (simp add: center_tegel_def)
  have "ID center_tegel = 3" "Name center_tegel = ''Tegel''" by (simp_all add: center_tegel_def)
  with disabled_pair [OF h1 h2 h3 h4] h1 h2 h3 h4 show ?thesis by auto
qed

subsection \<open>C6: a pair that fails\<close>

text \<open>
  C6. Let the pair (center \<open>c\<close>, type \<open>m\<close>) be enabled and fail: its fetch fails or its
  resolved date does not parse. Then the cycle emits the presence sample of the pair and
  no next-slot sample for it, and what it does for every other pair is what it does in any
  cycle that differs only in the answer to the request of this pair.
\<close>

theorem failed_pair:
  assumes "Impfzentren (catalog w) = Returns (Inr cs)" "c \<in> set cs"
    "map_of (Vaccination c) m = Some n" "pair_fails w c m"
    "\<forall>p q as. (p, q) \<noteq> (ID c, m) \<longrightarrow> av p q as = availabilities w p q as"
  shows "\<exists>out out'. Collect w = Returns out \<and>
           Collect (w\<lparr>availabilities := av\<rparr>) = Returns out' \<and>
           impfzentrum (Name c) n ''false'' \<in> set (events_of (ID c, m) out) \<and>
           (\<forall>e\<in>set (events_of (ID c, m) out). \<not> is_next_slot e) \<and>
           (\<forall>pr. pr \<noteq> (ID c, m) \<longrightarrow> events_of pr out' = events_of pr out)"
proof -
  let ?w' = "w\<lparr>availabilities := av\<rparr>"
  let ?out = "concat (map (center_events w) cs)"
  let ?out' = "concat (map (center_events ?w') cs)"
  have out: "Collect w = Returns ?out" by (rule Collect_Returns [OF assms(1)])
  have "Impfzentren (catalog ?w') = Returns (Inr cs)" using assms(1) by simp
  then have out': "Collect ?w' = Returns ?out'" by (rule Collect_Returns)
  have ev: "events_of (ID c, m) ?out = pair_events w c m"
    by (rule events_of_Collect [OF assms(1,2)])
  have pres: "impfzentrum (Name c) n ''false'' \<in> set (events_of (ID c, m) ?out)"
    by (simp add: ev pair_events_def assms(3))
  have nons: "\<not> is_next_slot e" if "e \<in> set (events_of (ID c, m) ?out)" for e
  proof -
    from that have "e = impfzentrum (Name c) n ''false'' \<or> e \<in> set (CollectAvailability w c m n) \<or>
        (\<exists>v. e = impfzentrum (Name c) v ''true'')"
      by (auto simp: ev pair_events_def assms(3) split: option.splits)
    then show ?thesis
      using CollectAvailability_fails [OF assms(4)] is_next_slot_sample by fastforce
  qed
  have others: "events_of pr ?out' = events_of pr ?out" if "pr \<noteq> (ID c, m)" for pr
  proof -
    have a: "\<forall>p q as. (p, q) \<noteq> (ID c, m) \<longrightarrow> availabilities ?w' p q as = availabilities w p q as"
      using assms(5) by simp
    have "events_of pr (center_events ?w' c') = events_of pr (center_events w c')" for c'
      by (rule events_of_center_agree [OF a _ _ that]) simp_all
    then show ?thesis by (simp add: events_of_concat comp_def)
  qed
  show ?thesis
    by (rule exI [of _ ?out], rule exI [of _ ?out'], intro conjI ballI allI impI)
       (use out out' pres nons others in \<open>blast+\<close>)
qed

theorem failed_pair_witness:
  "Impfzentren (catalog (world_of (Reply 200 (Json ciz_two)) one_down)) =
     Returns (Inr [center_messe, center_tegel]) \<and>
   center_messe \<in> set [center_messe, center_tegel] \<and>
   map_of (Vaccination center_messe) 7 = Some ''BioNTech'' \<and>
   pair_fails (world_of (Reply 200 (Json ciz_two)) one_down) center_messe 7 \<and>
   all_windows 1 8 [10] = availabilities (world_of (Reply 200 (Json ciz_two)) one_down) 1 8 [10] \<and>
   all_windows 1 7 [10] \<noteq> availabilities (world_of (Reply 200 (Json ciz_two)) one_down) 1 7 [10] \<and>
   (\<exists>out out'.
      Collect (world_of (Reply 200 (Json ciz_two)) one_down) = Returns out \<and>
      Collect (world_of (Reply 200 (Json ciz_two)) all_windows) = Returns out' \<and>
      impfzentrum ''Messe'' ''BioNTech'' ''false'' \<in> set (events_of (1, 7) out) \<and>
      (\<forall>e\<in>set (events_of (1, 7) out). \<not> is_next_slot e) \<and>
      events_of (1, 8) out' = events_of (1, 8) out \<and>
      events_of (3, 9) out' = events_of (3, 9) out)"
proof -
  let ?w = "world_of (Reply 200 (Json ciz_two)) one_down"
  have h1: "Impfzentren (catalog ?w) = Returns (Inr [center_messe, center_tegel])"
    by (simp add: world_of_def Impfzentren_two)
  have h2: "center_messe \<in> set [center_messe, center_tegel]" by simp
  have h3: "map_of (Vaccination center_messe) 7 = Some ''BioNTech''"
    by (simp add: center_messe_def)
  have h4: "pair_fails ?w center_messe 7"
    by (simp add: pair_fails_def world_of_def one_down_def center_messe_def)
  have h5: "\<forall>p q as. (p, q) \<noteq> (ID center_messe, 7) \<longrightarrow>
      all_windows p q as = availabilities ?w p q as"
    by (simp add: world_of_def one_down_def center_messe_def)
  have w': "?w\<lparr>availabilities := all_windows\<rparr> = world_of (Reply 200 (Json ciz_two)) all_windows"
    by (simp add: world_of_def)
  have i: "ID center_messe = 1" "Name center_messe = ''Messe''" by (simp_all add: center_messe_def)
  from failed_pair [OF h1 h2 h3 h4 h5] obtain out out' where
    "Collect ?w = Returns out"
    "Collect (world_of (Reply 200 (Json ciz_two)) all_windows) = Returns out'"
    "impfzentrum ''Messe'' ''BioNTech'' ''false'' \<in> set (events_of (1, 7) out)"
    "\<forall>e\<in>set (events_of (1, 7) out). \<not> is_next_slot e"
    "\<forall>pr. pr \<noteq> (1, 7) \<longrightarrow> events_of pr out' = events_of pr out"
    unfolding w' i by blast
  moreover from this(5) have "events_of (1, 8) out' = events_of (1, 8) out"
    "events_of (3, 9) out' = events_of (3, 9) out" by simp_all
  ultimately have "\<exists>out out'.
      Collect (world_of (Reply 200 (Json ciz_two)) one_down) = Returns out \<and>
      Collect (world_of (Reply 200 (Json ciz_two)) all_windows) = Returns out' \<and>
      impfzentrum ''Messe'' ''BioNTech'' ''false'' \<in> set (events_of (1, 7) out) \<and>
      (\<forall>e\<in>set (events_of (1, 7) out). \<not> is_next_slot e) \<and>
      events_of (1, 8) out' = events_of (1, 8) out \<and>
      events_of (3, 9) out' = events_of (3, 9) out"
    by (intro exI [of _ out] exI [of _ out'] conjI)
  moreover have "all_windows 1 8 [10] = availabilities ?w 1 8 [10]"
    "all_windows 1 7 [10] \<noteq> availabilities ?w 1 7 [10]"
    by (simp_all add: world_of_def one_down_def all_windows_def)
  ultimately show ?thesis using h1 h2 h3 h4 by (intro conjI)
qed

subsection \<open>C7: a catalog fetch that fails\<close>

text \<open>
  C7. If the catalog fetch fails, \<open>Collect\<close> returns (it does not panic), having logged
  the error and nothing else: no sample is emitted.
\<close>

theorem catalog_failure:
  assumes "fetch_fails (catalog w)"
  shows "\<exists>err out. Collect w = Returns out \<and> out = [(None, Log (ErrorFetchingImpfzentren err))] \<and>
           samples out = []"
proof -
  from assms obtain err where "decode (catalog w) = Inl err" by (auto simp: fetch_fails_decode)
  then have "Collect w = Returns [(None, Log (ErrorFetchingImpfzentren err))]"
    by (simp add: Collect_def Impfzentren_def)
  then show ?thesis by (simp add: samples_def)
qed

theorem catalog_failure_witness:
  "fetch_fails (catalog (world_of (Reply 503 (Json ciz_two)) all_windows)) \<and>
   Collect (world_of (Reply 503 (Json ciz_two)) all_windows) =
     Returns [(None, Log (ErrorFetchingImpfzentren (FailedWith 503)))] \<and>
   samples [(None :: (int \<times> int) option, Log (ErrorFetchingImpfzentren (FailedWith 503)) :: int event)] = []"
proof -
  have h: "fetch_fails (catalog (world_of (Reply 503 (Json ciz_two)) all_windows))"
    by (simp add: world_of_def)
  have "Collect (world_of (Reply 503 (Json ciz_two)) all_windows) =
     Returns [(None, Log (ErrorFetchingImpfzentren (FailedWith 503)))]"
    using catalog_failure [OF h] by (simp add: Collect_def Impfzentren_def world_of_def)
  then show ?thesis using h by (simp add: samples_def)
qed

subsection \<open>C8: one center per place\<close>

text \<open>
  C8, as stated, fails: in \<open>ciz_shared\<close> two places list practice 1 first, and
  classification produces one center for both, under the name of the later place.
\<close>

theorem shared_first_id_counterexample:
  "no_orphans ciz_shared \<and>
   filter (\<lambda>p. PractiseIDs p \<noteq> []) (Data_Places ciz_shared) =
     [messe, \<lparr>Place_Name = ''Arena'', PractiseIDs = [1]\<rparr>] \<and>
   classify ciz_shared =
     Returns [\<lparr>ID = 1, Name = ''Arena'', DisabledVaccination = [], Vaccination = [],
               AgendaIDs = []\<rparr>]"
  by (simp add: run_defs example_defs no_orphans_def)

text \<open>
  C8, amended. In a catalog in which every agenda's practice id is the first practice id
  of a place, classification returns; each center is stored under, and has as its
  identifier, the first practice id of a place, no two centers share an identifier, and
  the identifiers are exactly the first practice ids of the places that have one. If
  these first ids are pairwise distinct, the centers are, by identifier and name, exactly
  the places with at least one practice id, one center for each; places without practice
  ids produce no center.
\<close>

theorem centers_of_places:
  assumes "no_orphans ciz"
  shows "\<exists>pb cs. agendas_loop (motiveByID (Data_VisitMotives ciz)) (Data_Agendas ciz)
                   (practiceByID (Data_Places ciz)) = Returns pb \<and>
           classify ciz = Returns cs \<and> cs = map snd pb \<and>
           (\<forall>kc\<in>set pb. ID (snd kc) = fst kc) \<and>
           distinct (map ID cs) \<and>
           ID ` set cs = fst ` set (keyed_places (Data_Places ciz)) \<and>
           (\<forall>c\<in>set cs. (ID c, Name c) \<in> set (keyed_places (Data_Places ciz))) \<and>
           (distinct (map fst (keyed_places (Data_Places ciz))) \<longrightarrow>
              mset (map (\<lambda>c. (ID c, Name c)) cs) = mset (keyed_places (Data_Places ciz)))"
proof -
  let ?kp = "keyed_places (Data_Places ciz)"
  from assms obtain cs where cs: "classify ciz = Returns cs" by (rule classify_Returns)
  then obtain pb where run: "agendas_loop (motiveByID (Data_VisitMotives ciz)) (Data_Agendas ciz)
                   (practiceByID (Data_Places ciz)) = Returns pb" and eq: "cs = map snd pb"
    by (auto simp: classify_def split: go.splits)
  from classify_entries [OF cs] obtain pb' where pb': "cs = map snd pb'"
    "map fst pb' = map fst (practiceByID (Data_Places ciz))"
    "\<And>k c. (k, c) \<in> set pb' \<longleftrightarrow> (\<exists>n. map_of (rev ?kp) k = Some n \<and> c = final_center ciz k n)"
    by blast
  have keys: "map fst pb = map fst (practiceByID (Data_Places ciz))"
    using agendas_loop_Returns [OF run] by simp
  have ids: "map ID cs = map fst pb'" unfolding pb'(1) using pb'(3) by (auto simp: map_eq_conv)
  have "map fst pb = map fst pb'" using keys pb'(2) by simp
  moreover have "map snd pb = map snd pb'" using eq pb'(1) by simp
  ultimately have same: "pb = pb'" by (metis zip_map_fst_snd)
  have keyed: "\<forall>kc\<in>set pb. ID (snd kc) = fst kc" unfolding same using pb'(3) by auto
  have d: "distinct (map ID cs)" by (rule classify_distinct_ID(1) [OF cs])
  have s: "ID ` set cs = fst ` set ?kp" using classify_distinct_ID(2) [OF cs] by simp
  have sub: "(ID c, Name c) \<in> set ?kp" if "c \<in> set cs" for c
  proof -
    from classify_center [OF cs that] obtain n where n: "map_of (rev ?kp) (ID c) = Some n"
      "c = final_center ciz (ID c) n" by blast
    from n(2) have "Name c = n" by (metis final_center_Name)
    with n(1) show ?thesis using map_of_SomeD by fastforce
  qed
  have m: "mset (map (\<lambda>c. (ID c, Name c)) cs) = mset ?kp" if dk: "distinct (map fst ?kp)"
  proof -
    have d1: "distinct (map (\<lambda>c. (ID c, Name c)) cs)"
      using d by (auto simp: distinct_map inj_on_def)
    have d2: "distinct ?kp" using dk by (simp add: distinct_map)
    have "set ?kp \<subseteq> set (map (\<lambda>c. (ID c, Name c)) cs)"
    proof
      fix kn assume kn: "kn \<in> set ?kp"
      obtain k n where [simp]: "kn = (k, n)" by (cases kn)
      from kn dk have "map_of (rev ?kp) k = Some n" by (simp add: map_of_rev_distinct)
      then have "(k, final_center ciz k n) \<in> set pb'" using pb'(3) by blast
      then have "final_center ciz k n \<in> set cs" unfolding pb'(1) by force
      then have "(ID (final_center ciz k n), Name (final_center ciz k n)) \<in> set (map (\<lambda>c. (ID c, Name c)) cs)"
        by force
      then show "kn \<in> set (map (\<lambda>c. (ID c, Name c)) cs)" by simp
    qed
    moreover have "set (map (\<lambda>c. (ID c, Name c)) cs) \<subseteq> set ?kp" using sub by auto
    ultimately have "set (map (\<lambda>c. (ID c, Name c)) cs) = set ?kp" by blast
    then show ?thesis using set_eq_iff_mset_eq_distinct [OF d1 d2] by blast
  qed
  show ?thesis
    by (rule exI [of _ pb], rule exI [of _ cs], intro conjI ballI impI)
       (use run cs eq keyed d s sub m in \<open>blast+\<close>)
qed

theorem centers_of_places_witness:
  "no_orphans ciz_two \<and>
   keyed_places (Data_Places ciz_two) = [(1, ''Messe''), (3, ''Tegel'')] \<and>
   distinct (map fst (keyed_places (Data_Places ciz_two))) \<and>
   (\<exists>cs. classify ciz_two = Returns cs \<and> distinct (map ID cs) \<and>
      mset (map (\<lambda>c. (ID c, Name c)) cs) = mset [(1, ''Messe''), (3, ''Tegel'')])"
proof -
  have k: "keyed_places (Data_Places ciz_two) = [(1, ''Messe''), (3, ''Tegel'')]"
    by (simp add: example_defs keyed_places_def place_key_def)
  have h: "no_orphans ciz_two" by (simp add: no_orphans_def k) (simp add: example_defs)
  have d: "distinct (map fst (keyed_places (Data_Places ciz_two)))" by (simp add: k)
  from centers_of_places [OF h] d obtain cs where "classify ciz_two = Returns cs"
    "distinct (map ID cs)"
    "mset (map (\<lambda>c. (ID c, Name c)) cs) = mset (keyed_places (Data_Places ciz_two))"
    by blast
  then show ?thesis using h k d by auto
qed

subsection \<open>C10: a type without a visit motive\<close>

text \<open>
  C10. If classification completes, a type id of an agenda that has no entry in the visit
  motive list is in the disabled mapping of the agenda's center when the agenda has a
  disable flag and in the enabled mapping otherwise, with the empty string as its name;
  the presence sample of the pair is emitted with the empty type label, and every sample
  of the pair carries that label.
\<close>

theorem unknown_motive:
  assumes "decode (catalog w) = Inr ciz" "no_orphans ciz" "a \<in> set (Data_Agendas ciz)"
    "m \<in> set (VisitMotives a)" "m \<notin> VisitMotive_ID ` set (Data_VisitMotives ciz)"
  shows "\<exists>cs out c. Impfzentren (catalog w) = Returns (Inr cs) \<and> Collect w = Returns out \<and>
           c \<in> set cs \<and> ID c = PracticeID a \<and>
           map_of (if disabling a then DisabledVaccination c else Vaccination c) m = Some [] \<and>
           impfzentrum (Name c) [] (if disabling a then ''true'' else ''false'')
             \<in> set (events_of (ID c, m) out) \<and>
           (\<forall>x t d. impfzentrum x t d \<in> set (events_of (ID c, m) out) \<longrightarrow> t = []) \<and>
           (\<forall>x t v. next_slot x t v \<in> set (events_of (ID c, m) out) \<longrightarrow> t = [])"
proof -
  let ?mb = "motiveByID (Data_VisitMotives ciz)"
  from assms(2) obtain cs where cs: "classify ciz = Returns cs" by (rule classify_Returns)
  then have imp: "Impfzentren (catalog w) = Returns (Inr cs)"
    using assms(1) by (simp add: Impfzentren_def)
  let ?out = "concat (map (center_events w) cs)"
  have out: "Collect w = Returns ?out" by (rule Collect_Returns [OF imp])
  from assms(2,3) have "PracticeID a \<in> fst ` set (keyed_places (Data_Places ciz))"
    by (simp add: no_orphans_def)
  from center_of_practice [OF cs this] obtain c where c: "c \<in> set cs" "ID c = PracticeID a"
    by blast
  have nm: "motive_name ?mb m = []" by (rule motive_name_unknown [OF assms(5)])
  have ty: "m \<in> types_of ciz (ID c) (disabling a)" using types_ofI [OF assms(3,4)] c(2) by simp
  have en: "map_of (Vaccination c) m = (if m \<in> types_of ciz (ID c) False then Some [] else None)"
    using classify_Vaccination [OF cs c(1), of m] nm by simp
  have di: "map_of (DisabledVaccination c) m = (if m \<in> types_of ciz (ID c) True then Some [] else None)"
    using classify_Disabled [OF cs c(1), of m] nm by simp
  have entry: "map_of (if disabling a then DisabledVaccination c else Vaccination c) m = Some []"
    using ty en di by (cases "disabling a") simp_all
  have ev: "events_of (ID c, m) ?out = pair_events w c m" by (rule events_of_Collect [OF imp c(1)])
  have pres: "impfzentrum (Name c) [] (if disabling a then ''true'' else ''false'')
             \<in> set (events_of (ID c, m) ?out)"
    using entry by (cases "disabling a") (auto simp: ev pair_events_def split: option.splits)
  have a1: "\<forall>v. map_of (Vaccination c) m = Some v \<longrightarrow> v = []" using en by (simp split: if_splits)
  have a2: "\<forall>v. map_of (DisabledVaccination c) m = Some v \<longrightarrow> v = []" using di by (simp split: if_splits)
  have l1: "\<forall>x t d. impfzentrum x t d \<in> set (events_of (ID c, m) ?out) \<longrightarrow> t = []"
    unfolding ev by (intro allI impI) (rule sample_in_pair_events(1) [OF a1 a2])
  have l2: "\<forall>x t v. next_slot x t v \<in> set (events_of (ID c, m) ?out) \<longrightarrow> t = []"
    unfolding ev by (intro allI impI) (rule sample_in_pair_events(2) [OF a1 a2])
  show ?thesis
    by (rule exI [of _ cs], rule exI [of _ ?out], rule exI [of _ c], intro conjI)
       (fact imp out c entry pres l1 l2)+
qed

theorem unknown_motive_witness:
  "decode (catalog (world_of (Reply 200 (Json ciz_two)) all_windows)) = Inr ciz_two \<and>
   no_orphans ciz_two \<and> agenda 12 3 [9] False \<in> set (Data_Agendas ciz_two) \<and>
   9 \<in> set (VisitMotives (agenda 12 3 [9] False)) \<and>
   9 \<notin> VisitMotive_ID ` set (Data_VisitMotives ciz_two) \<and>
   (\<exists>cs out c. Impfzentren (catalog (world_of (Reply 200 (Json ciz_two)) all_windows)) = Returns (Inr cs) \<and>
      Collect (world_of (Reply 200 (Json ciz_two)) all_windows) = Returns out \<and>
      c \<in> set cs \<and> ID c = 3 \<and> map_of (Vaccination c) 9 = Some [] \<and>
      impfzentrum (Name c) [] ''false'' \<in> set (events_of (3, 9) out))"
proof -
  let ?w = "world_of (Reply 200 (Json ciz_two)) all_windows"
  have h1: "decode (catalog ?w) = Inr ciz_two" by (simp add: world_of_def)
  have h2: "no_orphans ciz_two"
    by (simp add: example_defs no_orphans_def keyed_places_def place_key_def)
  have h3: "agenda 12 3 [9] False \<in> set (Data_Agendas ciz_two)" by (simp add: ciz_two_def)
  have h4: "9 \<in> set (VisitMotives (agenda 12 3 [9] False))" by (simp add: agenda_def)
  have h5: "9 \<notin> VisitMotive_ID ` set (Data_VisitMotives ciz_two)" by (simp add: example_defs)
  have p: "PracticeID (agenda 12 3 [9] False) = 3" "disabling (agenda 12 3 [9] False) = False"
    by (simp_all add: agenda_def disabling_def)
  from unknown_motive [OF h1 h2 h3 h4 h5] obtain cs out c where
    "Impfzentren (catalog ?w) = Returns (Inr cs)" "Collect ?w = Returns out"
    "c \<in> set cs" "ID c = 3" "map_of (Vaccination c) 9 = Some []"
    "impfzentrum (Name c) [] ''false'' \<in> set (events_of (3, 9) out)"
    unfolding p by auto
  then have "\<exists>cs out c. Impfzentren (catalog ?w) = Returns (Inr cs) \<and>
      Collect ?w = Returns out \<and>
      c \<in> set cs \<and> ID c = 3 \<and> map_of (Vaccination c) 9 = Some [] \<and>
      impfzentrum (Name c) [] ''false'' \<in> set (events_of (3, 9) out)"
    by (intro exI [of _ cs] exI [of _ out] exI [of _ c] conjI)
  with h1 h2 h3 h4 h5 show ?thesis by (intro conjI)
qed

end
